theory Spec2Isabelle
  imports Main "HOL-Library.Sublist" "HOL-Library.AList"
begin

section \<open>The folder descriptor and the traversal engine of \<open>src/index.ts\<close>\<close>

text \<open>
  The development embeds the class \<open>BTranspiler\<close> of \<open>src/index.ts\<close>: the descriptor
  type \<open>Folder\<close>, the registration path (\<open>addFolder\<close>, \<open>addParentPath\<close>,
  \<open>validateFolder\<close>, \<open>checkFile\<close>) and the traversal (\<open>transform\<close>,
  \<open>removeOutdirFiles\<close>, \<open>transformFolder\<close>, \<open>transformFile\<close>,
  \<open>addTransformedFile\<close>).

  JavaScript strings are modelled as \<open>string\<close>, optional fields and \<open>undefined\<close> as
  \<open>option\<close>, thrown errors as the left summand of a sum type. Descriptors are values:
  a \<open>Folder\<close> object handed to \<open>addFolder\<close> is taken to be an object of its own,
  not one that already hangs under a registered node.
\<close>

subsection \<open>JavaScript string and array primitives\<close>

text \<open>\<open>s.endsWith(t)\<close>.\<close>

definition endsWith :: "string \<Rightarrow> string \<Rightarrow> bool" where
  "endsWith s t = (length t \<le> length s \<and> drop (length s - length t) s = t)"

text \<open>
  \<open>s.replace(pat, rep)\<close> with a string pattern: the first occurrence of \<open>pat\<close> in
  \<open>s\<close>, scanning from the left, is replaced, and nothing else. The replacement text is
  taken literally (the source's replacement \<open>'js'\<close> holds no \<open>$\<close> pattern).
\<close>

fun replace :: "string \<Rightarrow> string \<Rightarrow> string \<Rightarrow> string" where
  "replace [] pat rep = (if pat = [] then rep else [])"
| "replace (c # cs) pat rep =
     (if prefix pat (c # cs) then rep @ drop (length pat) (c # cs)
      else c # replace cs pat rep)"

text \<open>The truth value JavaScript gives a string: only the empty string is falsy.\<close>

definition truthy :: "string \<Rightarrow> bool" where
  "truthy s = (s \<noteq> [])"

subsection \<open>The descriptor: \<open>interface Folder\<close>\<close>

text \<open>
  The three optional fields \<open>path?\<close>, \<open>exclude?\<close> and \<open>folders?\<close> are \<open>None\<close> when
  the property is absent.
\<close>

datatype folder =
  Folder (path: "string option") (name: string)
         (exclude: "string list option") (folders: "folder list option")

text \<open>What a template literal prints for an optional string: \<open>undefined\<close> when absent.\<close>

definition interpolate :: "string option \<Rightarrow> string" where
  "interpolate s = (case s of None \<Rightarrow> ''undefined'' | Some t \<Rightarrow> t)"

text \<open>
  The expression both \<open>transformFolder\<close> and \<open>validateFolder\<close> bind to \<open>base_path\<close>:
  \<open>folder.path?.length !== 0 ? `${folder.path}/${folder.name}` : folder.name\<close>.
  With \<open>path\<close> absent the test compares \<open>undefined\<close> with \<open>0\<close> and takes the first
  branch.
\<close>

definition base_path :: "folder \<Rightarrow> string" where
  "base_path folder =
     (if (case path folder of None \<Rightarrow> True | Some p \<Rightarrow> length p \<noteq> 0)
      then interpolate (path folder) @ ''/'' @ name folder
      else name folder)"

text \<open>
  \<open>addParentPath(path, folder)\<close>: the children are stamped first, with
  \<open>`${path}/${folder.name}`\<close>, then the node's own \<open>path\<close> is set. An absent
  \<open>folders\<close> stays absent.
\<close>

fun addParentPath :: "string \<Rightarrow> folder \<Rightarrow> folder" where
  "addParentPath p (Folder pa n ex fo) =
     Folder (Some p) n ex
       (case fo of None \<Rightarrow> None
        | Some cs \<Rightarrow> Some (map (addParentPath (p @ ''/'' @ n)) cs))"

subsection \<open>The file filter and the output name of \<open>transformFolder\<close>\<close>

text \<open>
  The callback of line 85,
  \<open>(f) => folder.exclude?.find((x) => x !== f) && (f.endsWith('.ts') || f.endsWith('.js'))\<close>.
  \<open>find\<close> yields the first excluded name that differs from \<open>f\<close>, or \<open>undefined\<close>;
  the conjunction goes on to the suffix test only when that value is truthy.
\<close>

definition keepFile :: "folder \<Rightarrow> string \<Rightarrow> bool" where
  "keepFile folder f =
     (case exclude folder of
        None \<Rightarrow> False
      | Some xs \<Rightarrow>
          (case find (\<lambda>x. x \<noteq> f) xs of
             None \<Rightarrow> False
           | Some x \<Rightarrow> truthy x \<and> (endsWith f ''.ts'' \<or> endsWith f ''.js'')))"

text \<open>The last component of \<open>out_path\<close>, line 93: \<open>file.replace('ts', 'js')\<close>.\<close>

definition outName :: "string \<Rightarrow> string" where
  "outName file = replace file ''ts'' ''js''"

subsection \<open>Errors\<close>

text \<open>
  One constructor for each \<open>throw\<close> of the source, carrying what the message
  interpolates, one for the errors node's \<open>fs\<close> functions throw, and one for whatever
  the transpiler throws on text it cannot parse.
\<close>

datatype errno = ENOENT | EEXIST | ENOTDIR | EISDIR | EINVAL

datatype error =
    CannotFindFolder string string
  | CannotFindFile string string
  | CannotFindPath string string
  | OutdirNotDirectory string string
  | CouldntWrite string
  | SystemError errno string
  | TranspilerError string

subsection \<open>The filesystem behind \<open>fs\<close> and \<open>Bun.write\<close>\<close>

text \<open>
  The filesystem is outside the repository. It is modelled as a finite table from
  resolved paths (the list of path components below the root) to what is stored there;
  the order of the table is the order in which \<open>readdirSync\<close> lists entries. The root
  itself is always a directory.
\<close>

datatype node = File string | Directory | Special

type_synonym filesystem = "(string list \<times> node) list"

definition isDirectory :: "node \<Rightarrow> bool" where
  "isDirectory n = (case n of Directory \<Rightarrow> True | _ \<Rightarrow> False)"

definition isFile :: "node \<Rightarrow> bool" where
  "isFile n = (case n of File c \<Rightarrow> True | _ \<Rightarrow> False)"

text \<open>
  A path string is cut at every \<open>/\<close>; empty components and \<open>.\<close> are dropped, as path
  resolution does. A component \<open>..\<close> is taken as a name like any other.
\<close>

fun components :: "string \<Rightarrow> string \<Rightarrow> string list" where
  "components acc [] = (if acc = [] \<or> acc = ''.'' then [] else [acc])"
| "components acc (c # cs) =
     (if c = CHR ''/''
      then (if acc = [] \<or> acc = ''.'' then [] else [acc]) @ components [] cs
      else components (acc @ [c]) cs)"

definition resolve :: "string \<Rightarrow> string list" where
  "resolve p = components [] p"

definition lookup :: "filesystem \<Rightarrow> string list \<Rightarrow> node option" where
  "lookup fs k = (if k = [] then Some Directory else map_of fs k)"

text \<open>\<open>lstatSync(p, {throwIfNoEntry: false})\<close>: the entry, or \<open>undefined\<close>.\<close>

definition lstatSync :: "filesystem \<Rightarrow> string \<Rightarrow> node option" where
  "lstatSync fs p = lookup fs (resolve p)"

definition readdirSync :: "filesystem \<Rightarrow> string \<Rightarrow> error + string list" where
  "readdirSync fs p =
     (case lookup fs (resolve p) of
        None \<Rightarrow> Inl (SystemError ENOENT p)
      | Some Directory \<Rightarrow>
          Inr (map (\<lambda>e. last (fst e))
                 (filter (\<lambda>e. fst e \<noteq> [] \<and> butlast (fst e) = resolve p) fs))
      | Some _ \<Rightarrow> Inl (SystemError ENOTDIR p))"

text \<open>\<open>mkdirSync(p)\<close>, not recursive: the parent has to be there and \<open>p\<close> must not.\<close>

definition mkdirSync :: "filesystem \<Rightarrow> string \<Rightarrow> error + filesystem" where
  "mkdirSync fs p =
     (if lookup fs (resolve p) \<noteq> None then Inl (SystemError EEXIST p)
      else (case lookup fs (butlast (resolve p)) of
              None \<Rightarrow> Inl (SystemError ENOENT p)
            | Some Directory \<Rightarrow> Inr (fs @ [(resolve p, Directory)])
            | Some _ \<Rightarrow> Inl (SystemError ENOTDIR p)))"

definition readFileSync :: "filesystem \<Rightarrow> string \<Rightarrow> error + string" where
  "readFileSync fs p =
     (case lookup fs (resolve p) of
        None \<Rightarrow> Inl (SystemError ENOENT p)
      | Some (File text) \<Rightarrow> Inr text
      | Some Directory \<Rightarrow> Inl (SystemError EISDIR p)
      | Some Special \<Rightarrow> Inl (SystemError EINVAL p))"

text \<open>
  \<open>Bun.write(p, code)\<close> creates the file or replaces its text and yields the number
  of bytes written; \<open>None\<close> stands for a rejected promise. A write into a missing
  directory is taken to fail; \<open>transformFolder\<close> never gets there, since it writes
  only into the directory it has just created.
\<close>

definition Bun_write :: "filesystem \<Rightarrow> string \<Rightarrow> string \<Rightarrow> (nat \<times> filesystem) option" where
  "Bun_write fs p code =
     (case lookup fs (butlast (resolve p)) of
        Some Directory \<Rightarrow>
          (case lookup fs (resolve p) of
             Some Directory \<Rightarrow> None
           | Some Special \<Rightarrow> None
           | _ \<Rightarrow> (if resolve p = [] then None
                  else Some (length code, AList.update (resolve p) (File code) fs)))
      | _ \<Rightarrow> None)"

text \<open>\<open>rmdirSync(p, {recursive: true})\<close> removes the directory and all below it.\<close>

definition rmdirSync :: "filesystem \<Rightarrow> string \<Rightarrow> error + filesystem" where
  "rmdirSync fs p =
     (case lookup fs (resolve p) of
        None \<Rightarrow> Inl (SystemError ENOENT p)
      | Some Directory \<Rightarrow> Inr (filter (\<lambda>e. \<not> prefix (resolve p) (fst e)) fs)
      | Some _ \<Rightarrow> Inl (SystemError ENOTDIR p))"

definition unlinkSync :: "filesystem \<Rightarrow> string \<Rightarrow> error + filesystem" where
  "unlinkSync fs p =
     (case lookup fs (resolve p) of
        None \<Rightarrow> Inl (SystemError ENOENT p)
      | Some Directory \<Rightarrow> Inl (SystemError EISDIR p)
      | Some _ \<Rightarrow> Inr (AList.delete (resolve p) fs))"

subsection \<open>The engine: \<open>class BTranspiler\<close>\<close>

text \<open>
  What the class reads from its surroundings: \<open>import.meta.dir\<close>, \<open>process.cwd()\<close>
  and the \<open>transformSync\<close> of the transpiler built in the constructor.
\<close>

record env =
  meta_dir :: string
  cwd :: string
  transformSync :: "string \<Rightarrow> error + string"

text \<open>
  The two mutable fields. \<open>outdir\<close> is declared without an initial value, so it is
  \<open>undefined\<close> until \<open>setOutdir\<close> runs.
\<close>

record engine =
  this_outdir :: "string option"
  this_folders :: "folder list"

definition constructor :: engine where
  "constructor = \<lparr>this_outdir = None, this_folders = []\<rparr>"

definition setOutdir :: "string \<Rightarrow> engine \<Rightarrow> engine" where
  "setOutdir od this = this\<lparr>this_outdir := Some od\<rparr>"

text \<open>
  \<open>checkFile(file, dir, error, base_path)\<close> returns \<open>false\<close> or the stats, or throws.
\<close>

datatype checked = ReturnedFalse | ReturnedStats node

definition checkFile ::
  "env \<Rightarrow> filesystem \<Rightarrow> string \<Rightarrow> bool \<Rightarrow> bool \<Rightarrow> string \<Rightarrow> error + checked" where
  "checkFile env fs file dir err bp =
     (case lstatSync fs (bp @ ''/'' @ file) of
        None \<Rightarrow> Inl (if dir then CannotFindFolder file bp else CannotFindFile file bp)
      | Some stats \<Rightarrow>
          if bp \<noteq> meta_dir env then Inr (ReturnedStats stats)
          else if isDirectory stats \<and> \<not> dir \<and> err then Inl (CannotFindFolder file bp)
          else if isDirectory stats \<and> \<not> dir then Inr ReturnedFalse
          else if isFile stats \<and> dir \<and> err then Inl (CannotFindPath file bp)
          else if isFile stats \<and> dir then Inr ReturnedFalse
          else Inr (ReturnedStats stats))"

text \<open>
  \<open>xs.forEach(f)\<close> for a callback that may throw: the first throw ends the loop, and
  what the callback returns is dropped.
\<close>

fun forEach :: "('a \<Rightarrow> error + 'b) \<Rightarrow> 'a list \<Rightarrow> error + unit" where
  "forEach f [] = Inr ()"
| "forEach f (x # xs) = (case f x of Inl e \<Rightarrow> Inl e | Inr r \<Rightarrow> forEach f xs)"

lemma forEach_cong [fundef_cong]:
  "xs = ys \<Longrightarrow> (\<And>x. x \<in> set ys \<Longrightarrow> f x = g x) \<Longrightarrow> forEach f xs = forEach g ys"
  by (induction ys arbitrary: xs) (auto split: sum.splits)

text \<open>
  \<open>validateFolder(folder)\<close>, with \<open>this.folders\<close> as the argument \<open>forest\<close>. The
  optional \<open>exclude\<close> and \<open>folders\<close> are skipped when absent.
\<close>

fun validateFolder :: "env \<Rightarrow> filesystem \<Rightarrow> folder list \<Rightarrow> folder \<Rightarrow> error + bool" where
  "validateFolder env fs forest (Folder pa n ex fo) =
     (if find (\<lambda>x. name x = n) forest \<noteq> None then Inr False
      else
        (case checkFile env fs (base_path (Folder pa n ex fo)) True True (meta_dir env) of
           Inl e \<Rightarrow> Inl e
         | Inr r \<Rightarrow>
             (case (case ex of None \<Rightarrow> Inr ()
                    | Some xs \<Rightarrow>
                        forEach (\<lambda>f. checkFile env fs
                                   (base_path (Folder pa n ex fo) @ ''/'' @ f)
                                   False True (meta_dir env)) xs) of
                Inl e \<Rightarrow> Inl e
              | Inr u \<Rightarrow>
                  (case (case fo of None \<Rightarrow> Inr ()
                         | Some cs \<Rightarrow> forEach (validateFolder env fs forest) cs) of
                     Inl e \<Rightarrow> Inl e
                   | Inr u \<Rightarrow> Inr True))))"

text \<open>
  The descriptor \<open>addFolder(folder, exclude, sub_folders)\<close> validates and pushes:
  the sub folders stamped with \<open>addParentPath(folder, f)\<close> (lines 49 to 51), then the
  object literal \<open>{ path: '', name: folder, exclude: exclude ?? [], folders: sub_folders ?? [] }\<close>
  of lines 53 and 56.
\<close>

definition addFolder_node :: "string \<Rightarrow> string list option \<Rightarrow> folder list option \<Rightarrow> folder" where
  "addFolder_node folder excl sub_folders =
     Folder (Some []) folder
       (Some (case excl of None \<Rightarrow> [] | Some xs \<Rightarrow> xs))
       (Some (case sub_folders of None \<Rightarrow> []
              | Some cs \<Rightarrow> map (addParentPath folder) cs))"

text \<open>
  \<open>addFolder(folder, exclude, sub_folders)\<close>. The result pairs what the call did
  (\<open>None\<close>: it returned \<open>this\<close>; \<open>Some e\<close>: it threw \<open>e\<close>) with the engine after the
  call.
\<close>

definition addFolder ::
  "env \<Rightarrow> filesystem \<Rightarrow> string \<Rightarrow> string list option \<Rightarrow> folder list option \<Rightarrow> engine
    \<Rightarrow> error option \<times> engine" where
  "addFolder env fs folder excl sub_folders this =
     (case validateFolder env fs (this_folders this)
             (addFolder_node folder excl sub_folders) of
        Inl e \<Rightarrow> (Some e, this)
      | Inr validated \<Rightarrow>
          if \<not> validated then (None, this)
          else (None, this\<lparr>this_folders :=
                         this_folders this @ [addFolder_node folder excl sub_folders]\<rparr>))"

subsection \<open>The traversal\<close>

text \<open>
  What a traversal changes: the filesystem and the console. A console entry
  \<open>(out_path, bytes)\<close> stands for the line
  \<open>wrote file: "out_path" (bytes bytes)\<close>.
\<close>

record world =
  disk :: filesystem
  console :: "(string \<times> nat) list"

text \<open>\<open>transformFile(path)\<close>: read the text, hand it to the transpiler.\<close>

definition transformFile :: "env \<Rightarrow> filesystem \<Rightarrow> string \<Rightarrow> error + string" where
  "transformFile env fs p =
     (case readFileSync fs p of Inl e \<Rightarrow> Inl e | Inr code \<Rightarrow> transformSync env code)"

text \<open>\<open>addTransformedFile(path, code)\<close>: any failure of the write is rethrown.\<close>

definition addTransformedFile ::
  "string \<Rightarrow> string \<Rightarrow> filesystem \<Rightarrow> (error + nat) \<times> filesystem" where
  "addTransformedFile p code fs =
     (case Bun_write fs p code of
        None \<Rightarrow> (Inl (CouldntWrite p), fs)
      | Some (bytes, fs') \<Rightarrow> (Inr bytes, fs'))"

definition out_path :: "env \<Rightarrow> engine \<Rightarrow> string \<Rightarrow> string \<Rightarrow> string" where
  "out_path env this bp file =
     cwd env @ ''/'' @ interpolate (this_outdir this) @ ''/'' @ bp @ ''/'' @ outName file"

text \<open>
  The loop of lines 90 to 96 over the kept files: each write is awaited before the next
  file is read.
\<close>

fun transformFiles ::
  "env \<Rightarrow> engine \<Rightarrow> string \<Rightarrow> string list \<Rightarrow> world \<Rightarrow> error option \<times> world" where
  "transformFiles env this bp [] w = (None, w)"
| "transformFiles env this bp (file # files) w =
     (case transformFile env (disk w) (meta_dir env @ ''/'' @ bp @ ''/'' @ file) of
        Inl e \<Rightarrow> (Some e, w)
      | Inr code \<Rightarrow>
          (case addTransformedFile (out_path env this bp file) code (disk w) of
             (Inl e, fs') \<Rightarrow> (Some e, w\<lparr>disk := fs'\<rparr>)
           | (Inr bytes, fs') \<Rightarrow>
               transformFiles env this bp files
                 \<lparr>disk = fs', console = console w @ [(out_path env this bp file, bytes)]\<rparr>))"

text \<open>
  How far the model follows an \<open>async\<close> call. \<open>Fulfilled\<close>: the promise is fulfilled
  and nothing the call started is still running. \<open>Rejected e\<close>: the call threw \<open>e\<close>.
  \<open>Unawaited cs\<close>: line 99 has been reached with the non-empty list \<open>cs\<close> of sub
  folders. There \<open>folder.folders.forEach((f) => this.transformFolder(f))\<close> calls the
  \<open>async\<close> function on every child and drops the promises, so what the children do, and
  when, is left to the scheduler of the runtime. The model follows a run up to that point
  and no further; the world it returns is the one in which line 99 is reached.
\<close>

datatype outcome = Fulfilled | is_Rejected: Rejected error | Unawaited "folder list"

text \<open>\<open>transformFolder(folder)\<close>.\<close>

definition transformFolder :: "env \<Rightarrow> engine \<Rightarrow> folder \<Rightarrow> world \<Rightarrow> outcome \<times> world" where
  "transformFolder env this folder w =
     (case readdirSync (disk w) (meta_dir env @ ''/'' @ base_path folder) of
        Inl e \<Rightarrow> (Rejected e, w)
      | Inr entries \<Rightarrow>
          (case mkdirSync (disk w)
                  (cwd env @ ''/'' @ interpolate (this_outdir this) @ ''/'' @ base_path folder) of
             Inl e \<Rightarrow> (Rejected e, w)
           | Inr fs' \<Rightarrow>
               (case transformFiles env this (base_path folder)
                       (filter (keepFile folder) entries) (w\<lparr>disk := fs'\<rparr>) of
                  (Some e, w') \<Rightarrow> (Rejected e, w')
                | (None, w') \<Rightarrow>
                    (case folders folder of
                       None \<Rightarrow> (Fulfilled, w')
                     | Some cs \<Rightarrow> (if cs = [] then Fulfilled else Unawaited cs, w')))))"

text \<open>
  \<open>removeOutdirFiles()\<close>: the loop over the entries of the output folder, then the
  function itself.
\<close>

fun removeEntries :: "env \<Rightarrow> string \<Rightarrow> string list \<Rightarrow> filesystem \<Rightarrow> error option \<times> filesystem" where
  "removeEntries env out [] fs = (None, fs)"
| "removeEntries env out (file # files) fs =
     (case checkFile env fs file False False out of
        Inl e \<Rightarrow> (Some e, fs)
      | Inr ReturnedFalse \<Rightarrow> removeEntries env out files fs
      | Inr (ReturnedStats stats) \<Rightarrow>
          if isDirectory stats then
            (case rmdirSync fs (out @ ''/'' @ file) of
               Inl e \<Rightarrow> (Some e, fs)
             | Inr fs' \<Rightarrow> removeEntries env out files fs')
          else if isFile stats then
            (case unlinkSync fs (out @ ''/'' @ file) of
               Inl e \<Rightarrow> (Some e, fs)
             | Inr fs' \<Rightarrow> removeEntries env out files fs')
          else removeEntries env out files fs)"

definition removeOutdirFiles :: "env \<Rightarrow> engine \<Rightarrow> filesystem \<Rightarrow> error option \<times> filesystem" where
  "removeOutdirFiles env this fs =
     (case readdirSync fs (cwd env @ ''/'' @ interpolate (this_outdir this)) of
        Inl e \<Rightarrow> (Some e, fs)
      | Inr files \<Rightarrow>
          removeEntries env (cwd env @ ''/'' @ interpolate (this_outdir this)) files fs)"

text \<open>
  The loop of lines 74 to 77 over \<open>this.folders\<close>: the next folder is taken up once the
  promise of the one before is fulfilled.
\<close>

fun transformFolders :: "env \<Rightarrow> engine \<Rightarrow> folder list \<Rightarrow> world \<Rightarrow> outcome \<times> world" where
  "transformFolders env this [] w = (Fulfilled, w)"
| "transformFolders env this (folder # rest) w =
     (case transformFolder env this folder w of
        (Fulfilled, w') \<Rightarrow> transformFolders env this rest w'
      | (r, w') \<Rightarrow> (r, w'))"

text \<open>
  \<open>transform()\<close>: make sure the output folder is there, empty it, then walk the
  registered folders in order.
\<close>

definition transform :: "env \<Rightarrow> engine \<Rightarrow> world \<Rightarrow> outcome \<times> world" where
  "transform env this w =
     (case (case lstatSync (disk w) (cwd env @ ''/'' @ interpolate (this_outdir this)) of
              None \<Rightarrow> mkdirSync (disk w) (cwd env @ ''/'' @ interpolate (this_outdir this))
            | Some bundle_folder \<Rightarrow>
                if \<not> isDirectory bundle_folder
                then Inl (OutdirNotDirectory (interpolate (this_outdir this)) (cwd env))
                else Inr (disk w)) of
        Inl e \<Rightarrow> (Rejected e, w)
      | Inr fs1 \<Rightarrow>
          (case removeOutdirFiles env this fs1 of
             (Some e, fs2) \<Rightarrow> (Rejected e, w\<lparr>disk := fs2\<rparr>)
           | (None, fs2) \<Rightarrow>
               transformFolders env this (this_folders this) (w\<lparr>disk := fs2\<rparr>)))"

subsection \<open>Tidy filesystems\<close>

text \<open>
  A table is tidy when it has one entry for each path, every component of a path is a
  name (non-empty, not \<open>.\<close>, without \<open>/\<close>), and every entry lies in a directory.
\<close>

definition tidy :: "filesystem \<Rightarrow> bool" where
  "tidy D =
     (distinct (map fst D) \<and>
      (\<forall>e\<in>set D. fst e \<noteq> [] \<and> (\<forall>c\<in>set (fst e). resolve c = [c])
                   \<and> lookup D (butlast (fst e)) = Some Directory))"

subsection \<open>Vocabulary of the path composition property\<close>



subsection \<open>A sample tree\<close>

text \<open>
  The tree of the end-to-end example: the module lives in \<open>/src\<close>, which holds the
  folder \<open>api\<close> with \<open>index.ts\<close> and \<open>util.ts\<close>; the process runs in \<open>/work\<close>.
  The sample transpiler ends the text with a semicolon; it stands for a transpiler that
  prints its input in its own layout.
\<close>

definition example_env :: env where
  "example_env =
     \<lparr>meta_dir = ''/src'', cwd = ''/work'', transformSync = (\<lambda>s. Inr (s @ '';''))\<rparr>"

definition example_disk :: filesystem where
  "example_disk =
     [([''src''], Directory),
      ([''src'', ''api''], Directory),
      ([''src'', ''api'', ''index.ts''], File ''let a = 1''),
      ([''src'', ''api'', ''util.ts''], File ''let b = 2''),
      ([''work''], Directory)]"

text \<open>
  The same tree with a JavaScript file beside the two TypeScript files, and the engine
  after \<open>addFolder("api", ["util.ts"])\<close> and \<open>setOutdir("dist")\<close>.
\<close>

definition legacy_disk :: filesystem where
  "legacy_disk = example_disk @ [([''src'', ''api'', ''legacy.js''], File ''let c = 3'')]"

definition example_engine :: engine where
  "example_engine =
     \<lparr>this_outdir = Some ''dist'',
      this_folders = [Folder (Some []) ''api'' (Some [''util.ts'']) (Some [])]\<rparr>"

text \<open>
  The sample tree after an earlier run: \<open>/work/dist\<close> holds a stale file and a stale
  folder.
\<close>

definition stale_disk :: filesystem where
  "stale_disk =
     example_disk @
       [([''work'', ''dist''], Directory),
        ([''work'', ''dist'', ''stale.txt''], File ''old''),
        ([''work'', ''dist'', ''old''], Directory),
        ([''work'', ''dist'', ''old'', ''util.js''], File ''let b = 2;'')]"

text \<open>
  The sample tree with a sub folder \<open>v1\<close> of \<open>api\<close> that holds \<open>a.ts\<close> and
  \<open>b.ts\<close>.
\<close>

definition nested_disk :: filesystem where
  "nested_disk =
     example_disk @
       [([''src'', ''api'', ''v1''], Directory),
        ([''src'', ''api'', ''v1'', ''a.ts''], File ''let d = 4''),
        ([''src'', ''api'', ''v1'', ''b.ts''], File ''let e = 5'')]"

section \<open>Properties\<close>

lemmas eval_defs =
  addFolder_def addFolder_node_def constructor_def setOutdir_def checkFile_def base_path_def
  interpolate_def isDirectory_def isFile_def lstatSync_def lookup_def resolve_def
  example_env_def example_disk_def

lemmas run_defs =
  transform_def removeOutdirFiles_def transformFolder_def transformFile_def
  addTransformedFile_def out_path_def outName_def keepFile_def truthy_def endsWith_def
  readdirSync_def mkdirSync_def readFileSync_def Bun_write_def rmdirSync_def unlinkSync_def

subsection \<open>The file filter\<close>

text \<open>
  C1. The filter of \<open>transformFolder\<close> is meant to keep the entries that end in
  \<open>.ts\<close> or \<open>.js\<close> and are not named in \<open>exclude\<close>. The callback of line 85 does
  something else: \<open>find((x) => x !== f)\<close> looks for an excluded name that differs
  from the entry. For \<open>addFolder("api")\<close>, whose exclusion list is empty, nothing is
  found and no entry is kept; with the two exclusions \<open>util.ts\<close> and \<open>old.ts\<close> each of
  them finds the other one and both are kept.
\<close>

theorem keepFile_is_not_a_blocklist:
  "filter (keepFile (addFolder_node ''api'' None None)) [''index.ts'', ''util.ts''] = []
   \<and> filter (keepFile (addFolder_node ''api'' (Some [''util.ts'', ''old.ts'']) None))
         [''index.ts'', ''util.ts'', ''old.ts''] = [''index.ts'', ''util.ts'', ''old.ts'']"
  by (simp add: keepFile_def addFolder_node_def truthy_def endsWith_def)

subsection \<open>The output name\<close>

text \<open>
  C2. The output name is meant to be the file name with its suffix \<open>.ts\<close> turned
  into \<open>.js\<close>. Line 93 calls \<open>file.replace('ts', 'js')\<close>, which rewrites the first
  \<open>ts\<close> of the name wherever it stands: the kept file \<open>tests.ts\<close> is written as
  \<open>tesjs.ts\<close>.
\<close>

theorem outName_rewrites_first_ts:
  "keepFile (addFolder_node ''api'' (Some [''util.ts'']) None) ''tests.ts''
   \<and> outName ''tests.ts'' = ''tesjs.ts''"
  by (simp add: keepFile_def addFolder_node_def truthy_def endsWith_def outName_def)

subsection \<open>Stamping parent paths\<close>

text \<open>
  C9. \<open>addParentPath\<close> is idempotent: stamping a node a second time with the same
  parent path gives back the stamped node, with every descendant as it was. The
  function takes a path and a descriptor and yields a descriptor; no filesystem is
  among its arguments.
\<close>

theorem addParentPath_idempotent:
  "addParentPath p (addParentPath p f) = addParentPath p f"
  by (induction p f rule: addParentPath.induct) (auto split: option.splits)

subsection \<open>Registration\<close>

lemma name_addParentPath [simp]: "name (addParentPath p f) = name f"
  by (cases f) simp

lemma name_addFolder_node [simp]: "name (addFolder_node n excl subs) = n"
  by (simp add: addFolder_node_def)

lemma validateFolder_registered:
  "find (\<lambda>x. name x = name c) forest \<noteq> None \<Longrightarrow> validateFolder env fs forest c = Inr False"
  by (cases c) simp











lemma forEach_skip:
  "\<forall>x\<in>set xs. \<not> P x \<longrightarrow> (\<exists>r. f x = Inr r) \<Longrightarrow> forEach f xs = forEach f (filter P xs)"
  by (induction xs) (auto split: sum.splits)

lemma forEach_all_return:
  "\<forall>x\<in>set xs. \<exists>r. f x = Inr r \<Longrightarrow> forEach f xs = Inr ()"
  by (induction xs) (auto split: sum.splits)

lemma validateFolder_forEach_skips:
  "validateFolder env fs forest (Folder pa n ex (Some cs))
   = validateFolder env fs forest
       (Folder pa n ex (Some (filter (\<lambda>c. find (\<lambda>x. name x = name c) forest = None) cs)))"
proof -
  have "forEach (validateFolder env fs forest) cs
      = forEach (validateFolder env fs forest)
          (filter (\<lambda>c. find (\<lambda>x. name x = name c) forest = None) cs)"
    by (rule forEach_skip) (auto simp: validateFolder_registered)
  then show ?thesis
    by (simp add: base_path_def
        cong del: sum.case_cong_weak option.case_cong_weak cong: sum.case_cong option.case_cong)
qed

text \<open>
  C10. A child descriptor whose name is already registered at the top level is not
  validated: its \<open>validateFolder\<close> call returns \<open>false\<close> whatever the filesystem
  holds, so neither its path nor its excluded files nor its own sub folders are
  checked. \<open>forEach\<close> drops that result, and the parent is registered all the same
  once its own folder and excluded files are there.
\<close>

theorem validateFolder_skips_registered_child:
  assumes reg: "\<forall>c\<in>set cs. find (\<lambda>x. name x = name c) (this_folders this) \<noteq> None"
    and new: "find (\<lambda>x. name x = n) (this_folders this) = None"
    and dir: "lstatSync fs (meta_dir env @ ''/'' @ n) = Some Directory"
    and files: "\<forall>f\<in>set xs. \<exists>text. lstatSync fs (meta_dir env @ ''/'' @ n @ ''/'' @ f) = Some (File text)"
  shows "(\<forall>c\<in>set cs. \<forall>env' fs'. validateFolder env' fs' (this_folders this) (addParentPath n c) = Inr False)
       \<and> addFolder env fs n (Some xs) (Some cs) this
         = (None, this\<lparr>this_folders := this_folders this @ [addFolder_node n (Some xs) (Some cs)]\<rparr>)"
proof
  from reg show "\<forall>c\<in>set cs. \<forall>env' fs'. validateFolder env' fs' (this_folders this) (addParentPath n c) = Inr False"
    by (simp add: validateFolder_registered)
next
  let ?check = "\<lambda>f. checkFile env fs (n @ ''/'' @ f) False True (meta_dir env)"
  have ex: "forEach ?check xs = Inr ()"
  proof (rule forEach_all_return, rule ballI)
    fix f assume "f \<in> set xs"
    with files obtain t where "lstatSync fs (meta_dir env @ ''/'' @ n @ ''/'' @ f) = Some (File t)"
      by blast
    then show "\<exists>r. ?check f = Inr r"
      by (simp add: checkFile_def isDirectory_def isFile_def)
  qed
  have ch: "forEach (validateFolder env fs (this_folders this)) (map (addParentPath n) cs) = Inr ()"
  proof (rule forEach_all_return, rule ballI)
    fix c assume "c \<in> set (map (addParentPath n) cs)"
    with reg have "find (\<lambda>x. name x = name c) (this_folders this) \<noteq> None" by auto
    then have "validateFolder env fs (this_folders this) c = Inr False"
      by (rule validateFolder_registered)
    then show "\<exists>r. validateFolder env fs (this_folders this) c = Inr r" ..
  qed
  from new dir ex ch
  show "addFolder env fs n (Some xs) (Some cs) this
         = (None, this\<lparr>this_folders := this_folders this @ [addFolder_node n (Some xs) (Some cs)]\<rparr>)"
    by (simp add: addFolder_def addFolder_node_def base_path_def checkFile_def isDirectory_def isFile_def)
qed


theorem validateFolder_skips_registered_child_witness:
  "lstatSync (example_disk @ [([''src'', ''lib''], Directory)]) ''/src/lib/api'' = None
   \<and> validateFolder example_env (example_disk @ [([''src'', ''lib''], Directory)])
         [Folder (Some []) ''api'' (Some [''util.ts'']) (Some [])]
         (addParentPath ''lib'' (Folder None ''api'' (Some [''nothing.ts'']) None)) = Inr False
   \<and> addFolder example_env (example_disk @ [([''src'', ''lib''], Directory)]) ''lib'' (Some [])
         (Some [Folder None ''api'' (Some [''nothing.ts'']) None])
         \<lparr>this_outdir = None,
          this_folders = [Folder (Some []) ''api'' (Some [''util.ts'']) (Some [])]\<rparr>
       = (None, \<lparr>this_outdir = None,
                 this_folders =
                   [Folder (Some []) ''api'' (Some [''util.ts'']) (Some []),
                    Folder (Some []) ''lib'' (Some [])
                      (Some [Folder (Some ''lib'') ''api'' (Some [''nothing.ts'']) None])]\<rparr>)"
proof -
  let ?disk = "example_disk @ [([''src'', ''lib''], Directory)]"
  let ?eng = "\<lparr>this_outdir = None,
          this_folders = [Folder (Some []) ''api'' (Some [''util.ts'']) (Some [])]\<rparr>"
  let ?cs = "[Folder None ''api'' (Some [''nothing.ts'']) None]"
  have reg: "\<forall>c\<in>set ?cs. find (\<lambda>x. name x = name c) (this_folders ?eng) \<noteq> None"
    by simp
  have new: "find (\<lambda>x. name x = ''lib'') (this_folders ?eng) = None"
    by simp
  have dir: "lstatSync ?disk (meta_dir example_env @ ''/'' @ ''lib'') = Some Directory"
    by (simp add: eval_defs)
  have files: "\<forall>f\<in>set []. \<exists>t. lstatSync ?disk (meta_dir example_env @ ''/'' @ ''lib'' @ ''/'' @ f) = Some (File t)"
    by simp
  have gone: "lstatSync ?disk ''/src/lib/api'' = None"
    by (simp add: eval_defs)
  from validateFolder_skips_registered_child [OF reg new dir files] gone
  show ?thesis by (simp add: addFolder_node_def)
qed

subsection \<open>Path composition\<close>






subsection \<open>What the traversal writes\<close>

lemma components_slash:
  "components acc (a @ CHR ''/'' # b) = components acc a @ components [] b"
  by (induction a arbitrary: acc) simp_all

lemma resolve_slash: "resolve (a @ CHR ''/'' # b) = resolve a @ resolve b"
  by (simp add: resolve_def components_slash)

lemma lookup_update:
  "k \<noteq> [] \<Longrightarrow> lookup (AList.update k v fs) k' = (if k' = k then Some v else lookup fs k')"
  by (simp add: lookup_def update_conv')

lemma Bun_write_Some:
  "Bun_write fs p code = Some (n, fs') \<Longrightarrow>
   resolve p \<noteq> [] \<and> n = length code \<and> fs' = AList.update (resolve p) (File code) fs"
  by (auto simp: Bun_write_def split: option.splits node.splits if_splits)

lemma readFileSync_Inr:
  "readFileSync fs p = Inr t \<longleftrightarrow> lookup fs (resolve p) = Some (File t)"
  by (auto simp: readFileSync_def split: option.splits node.splits)

lemma transformFiles_step:
  assumes "transformFiles env this bp (g # gs) w = (None, w')"
  obtains t code where
    "readFileSync (disk w) (meta_dir env @ ''/'' @ bp @ ''/'' @ g) = Inr t"
    "transformSync env t = Inr code"
    "resolve (out_path env this bp g) \<noteq> []"
    "transformFiles env this bp gs
       \<lparr>disk = AList.update (resolve (out_path env this bp g)) (File code) (disk w),
        console = console w @ [(out_path env this bp g, length code)]\<rparr> = (None, w')"
  using assms
  by (auto simp: transformFile_def addTransformedFile_def
      split: sum.splits option.splits prod.splits dest!: Bun_write_Some)

lemma transformFiles_frame:
  "transformFiles env this bp files w = (None, w') \<Longrightarrow>
   \<forall>g\<in>set files. resolve (out_path env this bp g) \<noteq> k \<Longrightarrow>
   lookup (disk w') k = lookup (disk w) k"
proof (induction files arbitrary: w)
  case Nil
  then show ?case by simp
next
  case (Cons g gs)
  from Cons.prems(1) obtain t code where
    ne: "resolve (out_path env this bp g) \<noteq> []" and
    rest: "transformFiles env this bp gs
       \<lparr>disk = AList.update (resolve (out_path env this bp g)) (File code) (disk w),
        console = console w @ [(out_path env this bp g, length code)]\<rparr> = (None, w')"
    by (rule transformFiles_step)
  from Cons.prems(2) have "\<forall>g\<in>set gs. resolve (out_path env this bp g) \<noteq> k"
    and "k \<noteq> resolve (out_path env this bp g)"
    by auto
  with Cons.IH [OF rest] ne show ?case
    by (simp add: lookup_update)
qed

lemma transformFiles_writes_transformed:
  assumes run: "transformFiles env this bp files w = (None, w')"
    and outs: "distinct (map (\<lambda>f. resolve (out_path env this bp f)) files)"
    and apart: "\<forall>f\<in>set files. \<forall>g\<in>set files.
        resolve (meta_dir env @ ''/'' @ bp @ ''/'' @ f) \<noteq> resolve (out_path env this bp g)"
    and f: "f \<in> set files"
  shows "\<exists>t code. readFileSync (disk w) (meta_dir env @ ''/'' @ bp @ ''/'' @ f) = Inr t
           \<and> transformSync env t = Inr code
           \<and> readFileSync (disk w') (out_path env this bp f) = Inr code"
  using assms
proof (induction files arbitrary: w)
  case Nil
  then show ?case by simp
next
  case (Cons g gs)
  let ?out = "\<lambda>f. resolve (out_path env this bp f)"
  let ?src = "\<lambda>f. meta_dir env @ ''/'' @ bp @ ''/'' @ f"
  from Cons.prems(1) obtain t code where
    rd: "readFileSync (disk w) (?src g) = Inr t" and
    tr: "transformSync env t = Inr code" and
    ne: "?out g \<noteq> []" and
    rest: "transformFiles env this bp gs
       \<lparr>disk = AList.update (?out g) (File code) (disk w),
        console = console w @ [(out_path env this bp g, length code)]\<rparr> = (None, w')"
    by (rule transformFiles_step)
  show ?case
  proof (cases "f = g")
    case True
    from Cons.prems(2) have "?out g \<notin> ?out ` set gs" by simp
    then have "\<forall>h\<in>set gs. ?out h \<noteq> ?out g" by (metis imageI)
    with rest have "lookup (disk w') (?out g) = lookup (AList.update (?out g) (File code) (disk w)) (?out g)"
      using transformFiles_frame by fastforce
    with ne have "readFileSync (disk w') (out_path env this bp g) = Inr code"
      by (simp add: readFileSync_Inr lookup_update)
    with rd tr True show ?thesis by blast
  next
    case False
    with Cons.prems(4) have fin: "f \<in> set gs" by simp
    from Cons.prems(2) have d: "distinct (map ?out gs)" by simp
    from Cons.prems(3) have a: "\<forall>f\<in>set gs. \<forall>g\<in>set gs. resolve (?src f) \<noteq> ?out g" by simp
    from Cons.IH [OF rest d a fin] obtain t' code' where
      rd': "readFileSync (AList.update (?out g) (File code) (disk w)) (?src f) = Inr t'" and
      tr': "transformSync env t' = Inr code'" and
      out': "readFileSync (disk w') (out_path env this bp f) = Inr code'"
      by auto
    from Cons.prems(3) fin have "resolve (?src f) \<noteq> ?out g" by simp
    with rd' ne have "readFileSync (disk w) (?src f) = Inr t'"
      by (simp add: readFileSync_Inr lookup_update)
    with tr' out' show ?thesis by blast
  qed
qed


lemma mkdirSync_Inr:
  "mkdirSync fs p = Inr fs' \<Longrightarrow>
   fs' = fs @ [(resolve p, Directory)] \<and> lookup fs (resolve p) = None"
  by (auto simp: mkdirSync_def split: if_splits option.splits node.splits)

lemma lookup_File_append_Directory:
  "lookup (fs @ [(k, Directory)]) k' = Some (File t) \<Longrightarrow> lookup fs k' = Some (File t)"
  by (auto simp: lookup_def map_add_def split: if_splits option.splits)

text \<open>
  C3. A kept \<open>.js\<close> file is not copied verbatim. The loop of \<open>transformFolder\<close>
  sends every kept file through \<open>transformFile\<close>, whatever its suffix: when the
  folder's own files are done, the text found at the output path of a kept file is what
  \<open>transformSync\<close> made of the source text. The statement holds for every kept
  entry, so for the \<open>.js\<close> ones; it needs the kept files to have output paths of
  their own, none of which is the path of a kept source file.
\<close>

theorem transformFolder_writes_transformed_text:
  assumes run: "transformFolder env this folder w = (r, w')"
    and settled: "\<not> is_Rejected r"
    and listing: "readdirSync (disk w) (meta_dir env @ ''/'' @ base_path folder) = Inr entries"
    and outs: "distinct (map (\<lambda>f. resolve (out_path env this (base_path folder) f))
                          (filter (keepFile folder) entries))"
    and apart: "\<forall>f\<in>set (filter (keepFile folder) entries).
                \<forall>g\<in>set (filter (keepFile folder) entries).
                  resolve (meta_dir env @ ''/'' @ base_path folder @ ''/'' @ f)
                  \<noteq> resolve (out_path env this (base_path folder) g)"
    and f: "f \<in> set entries" "keepFile folder f"
  shows "\<exists>t code.
           readFileSync (disk w) (meta_dir env @ ''/'' @ base_path folder @ ''/'' @ f) = Inr t
         \<and> transformSync env t = Inr code
         \<and> readFileSync (disk w') (out_path env this (base_path folder) f) = Inr code"
proof -
  let ?kept = "filter (keepFile folder) entries"
  let ?dir = "cwd env @ ''/'' @ interpolate (this_outdir this) @ ''/'' @ base_path folder"
  from run settled listing obtain fs' where
    mk: "mkdirSync (disk w) ?dir = Inr fs'" and
    loop: "transformFiles env this (base_path folder) ?kept (w\<lparr>disk := fs'\<rparr>) = (None, w')"
    by (auto simp: transformFolder_def split: sum.splits prod.splits option.splits if_splits)
  from f have "f \<in> set ?kept" by simp
  from transformFiles_writes_transformed [OF loop outs apart this]
  obtain t code where
    rd: "readFileSync fs' (meta_dir env @ ''/'' @ base_path folder @ ''/'' @ f) = Inr t" and
    tr: "transformSync env t = Inr code" and
    out: "readFileSync (disk w') (out_path env this (base_path folder) f) = Inr code"
    by auto
  from mk have "fs' = disk w @ [(resolve ?dir, Directory)]"
    by (simp add: mkdirSync_Inr)
  with rd have "readFileSync (disk w) (meta_dir env @ ''/'' @ base_path folder @ ''/'' @ f) = Inr t"
    by (auto simp: readFileSync_Inr dest: lookup_File_append_Directory)
  with tr out show ?thesis by blast
qed


theorem transformFolder_writes_transformed_text_witness:
  "keepFile (Folder (Some []) ''api'' (Some [''util.ts'']) (Some [])) ''legacy.js''
   \<and> endsWith ''legacy.js'' ''.js''
   \<and> (\<exists>t code.
          readFileSync (legacy_disk @ [([''work'', ''dist''], Directory)]) ''/src/api/legacy.js'' = Inr t
        \<and> transformSync example_env t = Inr code
        \<and> readFileSync
             (disk (snd (transformFolder example_env example_engine
                      (Folder (Some []) ''api'' (Some [''util.ts'']) (Some []))
                      \<lparr>disk = legacy_disk @ [([''work'', ''dist''], Directory)], console = []\<rparr>)))
             ''/work/dist/api/legacy.js'' = Inr code)"
proof -
  let ?node = "Folder (Some []) ''api'' (Some [''util.ts'']) (Some [])"
  let ?w = "\<lparr>disk = legacy_disk @ [([''work'', ''dist''], Directory)], console = []\<rparr>"
  let ?w' = "\<lparr>disk = legacy_disk @ [([''work'', ''dist''], Directory),
                 ([''work'', ''dist'', ''api''], Directory),
                 ([''work'', ''dist'', ''api'', ''index.js''], File ''let a = 1;''),
                 ([''work'', ''dist'', ''api'', ''legacy.js''], File ''let c = 3;'')],
             console = [(''/work/dist/api/index.js'', 10), (''/work/dist/api/legacy.js'', 10)]\<rparr>"
  have run: "transformFolder example_env example_engine ?node ?w = (Fulfilled, ?w')"
    by (simp add: eval_defs run_defs legacy_disk_def example_engine_def)
  have listing: "readdirSync (disk ?w) (meta_dir example_env @ ''/'' @ base_path ?node)
      = Inr [''index.ts'', ''util.ts'', ''legacy.js'']"
    by (simp add: eval_defs run_defs legacy_disk_def)
  have kept: "filter (keepFile ?node) [''index.ts'', ''util.ts'', ''legacy.js''] = [''index.ts'', ''legacy.js'']"
    by (simp add: keepFile_def truthy_def endsWith_def)
  have outs: "distinct (map (\<lambda>f. resolve (out_path example_env example_engine (base_path ?node) f))
                          (filter (keepFile ?node) [''index.ts'', ''util.ts'', ''legacy.js'']))"
    unfolding kept by (simp add: eval_defs run_defs example_engine_def)
  have apart: "\<forall>f\<in>set (filter (keepFile ?node) [''index.ts'', ''util.ts'', ''legacy.js'']).
                \<forall>g\<in>set (filter (keepFile ?node) [''index.ts'', ''util.ts'', ''legacy.js'']).
                  resolve (meta_dir example_env @ ''/'' @ base_path ?node @ ''/'' @ f)
                  \<noteq> resolve (out_path example_env example_engine (base_path ?node) g)"
    unfolding kept by (simp add: eval_defs run_defs example_engine_def)
  have f: "''legacy.js'' \<in> set [''index.ts'', ''util.ts'', ''legacy.js'']" "keepFile ?node ''legacy.js''"
    by (simp_all add: keepFile_def truthy_def endsWith_def)
  have settled: "\<not> is_Rejected Fulfilled"
    by simp
  from transformFolder_writes_transformed_text [OF run settled listing outs apart f] f run
  show ?thesis
    by (simp add: eval_defs run_defs example_engine_def endsWith_def)
qed

text \<open>
  The claim as stated fails on the sample tree: \<open>legacy.js\<close> is kept, its text is
  \<open>let c = 3\<close>, and after \<open>transform\<close> the output holds the transpiler's
  \<open>let c = 3;\<close>.
\<close>

theorem js_file_is_transpiled_counterexample:
  "keepFile (Folder (Some []) ''api'' (Some [''util.ts'']) (Some [])) ''legacy.js''
   \<and> endsWith ''legacy.js'' ''.js''
   \<and> readFileSync legacy_disk ''/src/api/legacy.js'' = Inr ''let c = 3''
   \<and> fst (transform example_env example_engine \<lparr>disk = legacy_disk, console = []\<rparr>) = Fulfilled
   \<and> readFileSync
        (disk (snd (transform example_env example_engine \<lparr>disk = legacy_disk, console = []\<rparr>)))
        ''/work/dist/api/legacy.js'' = Inr ''let c = 3;''"
  by (simp add: eval_defs run_defs legacy_disk_def example_engine_def)


subsection \<open>The end-to-end example\<close>

lemma lookup_append:
  "lookup (A @ B) q = (case lookup A q of None \<Rightarrow> lookup B q | Some v \<Rightarrow> Some v)"
  by (auto simp: lookup_def map_add_def split: option.splits)

lemma lookup_Nil: "lookup [] q = (if q = [] then Some Directory else None)"
  by (simp add: lookup_def)

lemma lookup_Cons:
  "lookup ((k, v) # fs) q = (if q = [] then Some Directory else if q = k then Some v else lookup fs q)"
  by (simp add: lookup_def)

lemma lookup_absent:
  "\<forall>e\<in>set D. fst e \<noteq> q \<Longrightarrow> q \<noteq> [] \<Longrightarrow> lookup D q = None"
  by (force simp: lookup_def map_of_eq_None_iff)

lemma update_absent:
  "\<forall>e\<in>set D. fst e \<noteq> q \<Longrightarrow> AList.update q v D = D @ [(q, v)]"
  by (induction D) auto

lemma resolve_api: "resolve (m @ ''/api'') = resolve m @ [''api'']"
  and resolve_api_index: "resolve (m @ ''/api/index.ts'') = resolve m @ [''api'', ''index.ts'']"
  and resolve_api_util: "resolve (m @ ''/api/util.ts'') = resolve m @ [''api'', ''util.ts'']"
  and resolve_dist: "resolve (m @ ''/dist'') = resolve m @ [''dist'']"
  and resolve_dist_api: "resolve (m @ ''/dist/api'') = resolve m @ [''dist'', ''api'']"
  and resolve_dist_api_index:
    "resolve (m @ ''/dist/api/index.js'') = resolve m @ [''dist'', ''api'', ''index.js'']"
  by (simp_all add: resolve_slash) (simp_all add: resolve_def)

lemma lookup_Some_key: "lookup D k = Some v \<Longrightarrow> k \<noteq> [] \<Longrightarrow> (k, v) \<in> set D"
  by (simp add: lookup_def map_of_SomeD)

lemma lookup_key: "distinct (map fst D) \<Longrightarrow> (k, v) \<in> set D \<Longrightarrow> k \<noteq> [] \<Longrightarrow> lookup D k = Some v"
  by (simp add: lookup_def)

lemma tidy_ancestor:
  "tidy D \<Longrightarrow> (k, v) \<in> set D \<Longrightarrow> strict_prefix p k \<Longrightarrow> lookup D p = Some Directory"
proof (induction "length k" arbitrary: k v rule: less_induct)
  case less
  from less.prems(1,2) have k: "k \<noteq> []" and parent: "lookup D (butlast k) = Some Directory"
    by (auto simp: tidy_def)
  from less.prems(3) k have pre: "prefix p (butlast k)"
    by (metis append_butlast_last_id prefix_snoc strict_prefix_def)
  show ?case
  proof (cases "p = butlast k")
    case True
    with parent show ?thesis by simp
  next
    case False
    with pre have sp: "strict_prefix p (butlast k)" by (simp add: strict_prefix_def)
    then have "butlast k \<noteq> []" by auto
    with parent have "(butlast k, Directory) \<in> set D" by (simp add: lookup_Some_key)
    moreover from k have "length (butlast k) < length k" by simp
    ultimately show ?thesis using less.hyps less.prems(1) sp by blast
  qed
qed

lemma lookup_filter:
  "P k \<Longrightarrow> lookup (filter (\<lambda>e. P (fst e)) F) k = lookup F k"
  by (induction F) (auto simp: lookup_def)

lemma delete_as_filter: "AList.delete k F = filter (\<lambda>e. fst e \<noteq> k) F"
  by (induction F) auto

lemma removeEntries_wipes:
  assumes "resolve out = d" "out \<noteq> meta_dir env"
    and "\<forall>n\<in>set ns. resolve n = [n]" "distinct ns"
    and "\<forall>n\<in>set ns.
           (\<exists>t. lookup F (d @ [n]) = Some (File t) \<and> (\<forall>e\<in>set F. \<not> strict_prefix (d @ [n]) (fst e)))
           \<or> lookup F (d @ [n]) = Some Directory"
  shows "removeEntries env out ns F
         = (None, filter (\<lambda>e. \<not> (\<exists>n\<in>set ns. prefix (d @ [n]) (fst e))) F)"
  using assms(3-)
proof (induction ns arbitrary: F)
  case Nil
  then show ?case by simp
next
  case (Cons n ns)
  let ?F' = "filter (\<lambda>e. \<not> prefix (d @ [n]) (fst e)) F"
  from Cons.prems(1) assms(1) have key: "resolve (out @ CHR ''/'' # n) = d @ [n]"
    by (simp add: resolve_slash)
  have step: "removeEntries env out (n # ns) F = removeEntries env out ns ?F'"
  proof -
    from Cons.prems(3) consider
      (plain) t where "lookup F (d @ [n]) = Some (File t)"
          "\<forall>e\<in>set F. \<not> strict_prefix (d @ [n]) (fst e)"
      | (folder) "lookup F (d @ [n]) = Some Directory"
      by auto
    then show ?thesis
    proof cases
      case plain
      from plain(2) have "filter (\<lambda>e. fst e \<noteq> d @ [n]) F = ?F'"
        by (intro filter_cong refl) (auto simp: strict_prefix_def)
      with plain(1) key assms(2) show ?thesis
        by (simp add: checkFile_def lstatSync_def isDirectory_def isFile_def unlinkSync_def
            delete_as_filter)
    next
      case folder
      with key assms(2) show ?thesis
        by (simp add: checkFile_def lstatSync_def isDirectory_def isFile_def rmdirSync_def)
    qed
  qed
  have keep: "\<forall>m\<in>set ns. lookup ?F' (d @ [m]) = lookup F (d @ [m])"
  proof
    fix m assume "m \<in> set ns"
    with Cons.prems(2) have "m \<noteq> n" by auto
    then have "\<not> prefix (d @ [n]) (d @ [m])" by simp
    then show "lookup ?F' (d @ [m]) = lookup F (d @ [m])"
      by (rule lookup_filter [where P = "\<lambda>k. \<not> prefix (d @ [n]) k"])
  qed
  have nodes': "\<forall>m\<in>set ns.
           (\<exists>t. lookup ?F' (d @ [m]) = Some (File t) \<and> (\<forall>e\<in>set ?F'. \<not> strict_prefix (d @ [m]) (fst e)))
           \<or> lookup ?F' (d @ [m]) = Some Directory"
  proof
    fix m assume m: "m \<in> set ns"
    with Cons.prems(3) consider
      (plain) t where "lookup F (d @ [m]) = Some (File t)"
          "\<forall>e\<in>set F. \<not> strict_prefix (d @ [m]) (fst e)"
      | (folder) "lookup F (d @ [m]) = Some Directory"
      by auto
    then show "(\<exists>t. lookup ?F' (d @ [m]) = Some (File t)
                  \<and> (\<forall>e\<in>set ?F'. \<not> strict_prefix (d @ [m]) (fst e)))
           \<or> lookup ?F' (d @ [m]) = Some Directory"
    proof cases
      case plain
      with keep m show ?thesis by simp
    next
      case folder
      with keep m show ?thesis by simp
    qed
  qed
  from Cons.prems(1,2) have "\<forall>n\<in>set ns. resolve n = [n]" "distinct ns" by auto
  from Cons.IH [OF this nodes'] step show ?case
    by (auto intro: filter_cong)
qed


lemma tidy_child_names:
  assumes "tidy D"
  shows "\<forall>n\<in>set (map (\<lambda>e. last (fst e)) (filter (\<lambda>e. fst e \<noteq> [] \<and> butlast (fst e) = d) D)).
           resolve n = [n]"
  using assms by (auto simp: tidy_def)

lemma tidy_child_names_distinct:
  assumes "tidy D"
  shows "distinct (map (\<lambda>e. last (fst e)) (filter (\<lambda>e. fst e \<noteq> [] \<and> butlast (fst e) = d) D))"
proof -
  from assms have dk: "distinct (map fst D)" by (simp add: tidy_def)
  then have dD: "distinct D" by (simp add: distinct_map)
  have "inj_on (\<lambda>e. last (fst e)) (set (filter (\<lambda>e. fst e \<noteq> [] \<and> butlast (fst e) = d) D))"
  proof (rule inj_onI)
    fix x y
    assume x: "x \<in> set (filter (\<lambda>e. fst e \<noteq> [] \<and> butlast (fst e) = d) D)"
      and y: "y \<in> set (filter (\<lambda>e. fst e \<noteq> [] \<and> butlast (fst e) = d) D)"
      and eq: "last (fst x) = last (fst y)"
    then have "fst x = fst y"
      by (metis (mono_tags, lifting) append_butlast_last_id mem_Collect_eq set_filter)
    with x y dk show "x = y"
      by (metis (mono_tags, lifting) distinct_map inj_onD mem_Collect_eq set_filter)
  qed
  with dD show ?thesis by (simp add: distinct_map)
qed

lemma child_listed:
  "(d @ [n], v) \<in> set D \<Longrightarrow>
   n \<in> set (map (\<lambda>e. last (fst e)) (filter (\<lambda>e. fst e \<noteq> [] \<and> butlast (fst e) = d) D))"
  by force

lemma below_iff_under_child:
  assumes "tidy D" and e: "e \<in> set D"
  shows "(\<exists>n\<in>set (map (\<lambda>e. last (fst e)) (filter (\<lambda>e. fst e \<noteq> [] \<and> butlast (fst e) = d) D)).
            prefix (d @ [n]) (fst e))
         \<longleftrightarrow> strict_prefix d (fst e)"
proof
  assume "\<exists>n\<in>set (map (\<lambda>e. last (fst e)) (filter (\<lambda>e. fst e \<noteq> [] \<and> butlast (fst e) = d) D)).
            prefix (d @ [n]) (fst e)"
  then obtain n where "prefix (d @ [n]) (fst e)" by blast
  then obtain zs where "fst e = (d @ [n]) @ zs" by (auto simp: prefix_def)
  then show "strict_prefix d (fst e)" by (simp add: strict_prefix_def)
next
  assume "strict_prefix d (fst e)"
  then obtain x rest where k: "fst e = d @ x # rest"
    by (auto simp: strict_prefix_def prefix_def neq_Nil_conv)
  have "\<exists>v. (d @ [x], v) \<in> set D"
  proof (cases rest)
    case Nil
    with k e show ?thesis by (metis append.right_neutral prod.collapse)
  next
    case (Cons y ys)
    with k have "strict_prefix (d @ [x]) (fst e)" by (simp add: strict_prefix_def)
    with assms(1) e have "lookup D (d @ [x]) = Some Directory"
      by (metis prod.collapse tidy_ancestor)
    then show ?thesis by (auto dest: lookup_Some_key)
  qed
  then obtain v where "(d @ [x], v) \<in> set D" ..
  then have "x \<in> set (map (\<lambda>e. last (fst e)) (filter (\<lambda>e. fst e \<noteq> [] \<and> butlast (fst e) = d) D))"
    by (rule child_listed)
  moreover from k have "prefix (d @ [x]) (fst e)" by simp
  ultimately show "\<exists>n\<in>set (map (\<lambda>e. last (fst e)) (filter (\<lambda>e. fst e \<noteq> [] \<and> butlast (fst e) = d) D)).
            prefix (d @ [n]) (fst e)" by blast
qed

lemma removeOutdirFiles_wipes:
  assumes tidy: "tidy D"
    and out: "cwd env @ ''/'' @ interpolate (this_outdir this) \<noteq> meta_dir env"
    and dir: "lookup D (resolve (cwd env @ ''/'' @ interpolate (this_outdir this))) = Some Directory"
    and plain: "\<forall>e\<in>set D. strict_prefix (resolve (cwd env @ ''/'' @ interpolate (this_outdir this))) (fst e)
                  \<longrightarrow> snd e \<noteq> Special"
  shows "removeOutdirFiles env this D
         = (None, filter (\<lambda>e. \<not> strict_prefix
                        (resolve (cwd env @ ''/'' @ interpolate (this_outdir this))) (fst e)) D)"
proof -
  let ?out = "cwd env @ ''/'' @ interpolate (this_outdir this)"
  let ?d = "resolve ?out"
  let ?ns = "map (\<lambda>e. last (fst e)) (filter (\<lambda>e. fst e \<noteq> [] \<and> butlast (fst e) = ?d) D)"
  from tidy have dk: "distinct (map fst D)" by (simp add: tidy_def)
  have nodes: "\<forall>n\<in>set ?ns.
           (\<exists>t. lookup D (?d @ [n]) = Some (File t) \<and> (\<forall>e\<in>set D. \<not> strict_prefix (?d @ [n]) (fst e)))
           \<or> lookup D (?d @ [n]) = Some Directory"
  proof
    fix n assume "n \<in> set ?ns"
    then obtain e where e: "e \<in> set D" "fst e \<noteq> []" "butlast (fst e) = ?d" "n = last (fst e)"
      by auto
    then have key: "fst e = ?d @ [n]" by (metis append_butlast_last_id)
    with e(1) dk have lk: "lookup D (?d @ [n]) = Some (snd e)"
      by (metis lookup_key prod.collapse snoc_eq_iff_butlast)
    from key have "strict_prefix ?d (fst e)" by (simp add: strict_prefix_def)
    with plain e(1) have ns: "snd e \<noteq> Special" by blast
    show "(\<exists>t. lookup D (?d @ [n]) = Some (File t) \<and> (\<forall>e\<in>set D. \<not> strict_prefix (?d @ [n]) (fst e)))
           \<or> lookup D (?d @ [n]) = Some Directory"
    proof (cases "snd e")
      case (File t)
      have "\<forall>e'\<in>set D. \<not> strict_prefix (?d @ [n]) (fst e')"
      proof (intro ballI notI)
        fix e' assume "e' \<in> set D" "strict_prefix (?d @ [n]) (fst e')"
        with tidy have "lookup D (?d @ [n]) = Some Directory"
          by (metis prod.collapse tidy_ancestor)
        with lk File show False by simp
      qed
      with lk File show ?thesis by simp
    next
      case Directory
      with lk show ?thesis by simp
    next
      case Special
      with ns show ?thesis by simp
    qed
  qed
  have "removeEntries env ?out ?ns D
        = (None, filter (\<lambda>e. \<not> (\<exists>n\<in>set ?ns. prefix (?d @ [n]) (fst e))) D)"
    by (rule removeEntries_wipes [OF refl out tidy_child_names [OF tidy]
          tidy_child_names_distinct [OF tidy] nodes])
  moreover have "filter (\<lambda>e. \<not> (\<exists>n\<in>set ?ns. prefix (?d @ [n]) (fst e))) D
        = filter (\<lambda>e. \<not> strict_prefix ?d (fst e)) D"
    by (rule filter_cong [OF refl]) (simp only: below_iff_under_child [OF tidy])
  ultimately show ?thesis
    using dir by (simp add: removeOutdirFiles_def readdirSync_def)
qed


lemma filter_key:
  "distinct (map fst D) \<Longrightarrow> (k, v) \<in> set D \<Longrightarrow> filter (\<lambda>e. fst e = k) D = [(k, v)]"
proof (induction D)
  case Nil
  then show ?case by simp
next
  case (Cons a D)
  show ?case
  proof (cases "fst a = k")
    case True
    with Cons.prems have "k \<notin> fst ` set D" by auto
    then have "filter (\<lambda>e. fst e = k) D = []"
      by (auto simp: filter_empty_conv)
    moreover from True Cons.prems have "a = (k, v)"
      by (metis \<open>k \<notin> fst ` set D\<close> fst_conv image_eqI set_ConsD)
    ultimately show ?thesis by simp
  next
    case False
    with Cons show ?thesis by auto
  qed
qed

lemma transformFolder_api:
  assumes root: "lookup D1 (resolve (cwd env) @ [''dist'']) = Some Directory"
    and clean: "\<forall>e\<in>set D1. \<not> strict_prefix (resolve (cwd env) @ [''dist'']) (fst e)"
    and listed: "readdirSync D1 (meta_dir env @ ''/api'') = Inr es"
    and kept: "filter (keepFile (Folder (Some []) ''api'' (Some [''util.ts'']) (Some []))) es
                = [''index.ts'']"
    and index: "lookup D1 (resolve (meta_dir env) @ [''api'', ''index.ts'']) = Some (File src)"
    and conv: "transformSync env src = Inr code"
  shows "transformFolder env \<lparr>this_outdir = Some ''dist'', this_folders = registered\<rparr>
           (Folder (Some []) ''api'' (Some [''util.ts'']) (Some []))
           \<lparr>disk = D1, console = c0\<rparr>
         = (Fulfilled,
            \<lparr>disk = D1 @ [(resolve (cwd env) @ [''dist'', ''api''], Directory),
                          (resolve (cwd env) @ [''dist'', ''api'', ''index.js''], File code)],
             console = c0 @ [(cwd env @ ''/dist/api/index.js'', length code)]\<rparr>)"
proof -
  let ?k = "resolve (cwd env)"
  let ?s = "resolve (meta_dir env)"
  let ?node = "Folder (Some []) ''api'' (Some [''util.ts'']) (Some [])"
  let ?eng = "\<lparr>this_outdir = Some ''dist'', this_folders = registered\<rparr>"
  let ?D2 = "D1 @ [(?k @ [''dist'', ''api''], Directory)]"
  let ?D3 = "?D2 @ [(?k @ [''dist'', ''api'', ''index.js''], File code)]"
  have no_api: "\<forall>e\<in>set D1. fst e \<noteq> ?k @ [''dist'', ''api'']"
    and no_index: "\<forall>e\<in>set D1. fst e \<noteq> ?k @ [''dist'', ''api'', ''index.js'']"
    using clean by (auto simp: strict_prefix_def)
  then have api_none: "lookup D1 (?k @ [''dist'', ''api'']) = None"
    and index_none: "lookup D1 (?k @ [''dist'', ''api'', ''index.js'']) = None"
    by (simp_all add: lookup_absent)
  have made_api: "mkdirSync D1 (cwd env @ ''/dist/api'') = Inr ?D2"
    using root api_none
    by (simp add: mkdirSync_def resolve_dist_api butlast_append)
  have read: "transformFile env ?D2 (meta_dir env @ ''/api/index.ts'') = Inr code"
    using index conv
    by (simp add: transformFile_def readFileSync_def resolve_api_index lookup_append lookup_Cons)
  have absent2: "\<forall>e\<in>set ?D2. fst e \<noteq> ?k @ [''dist'', ''api'', ''index.js'']"
    using no_index by simp
  have written: "addTransformedFile (cwd env @ ''/dist/api/index.js'') code ?D2
      = (Inr (length code), ?D3)"
    using root api_none index_none update_absent [OF absent2]
    by (simp add: addTransformedFile_def Bun_write_def resolve_dist_api_index lookup_append
        lookup_Cons lookup_Nil butlast_append)
  show ?thesis
    using listed kept made_api read written
    by (simp add: transformFolder_def base_path_def interpolate_def out_path_def outName_def)
qed


lemma strict_prefix_child:
  "\<not> prefix d p \<Longrightarrow> \<not> strict_prefix d (p @ [x])"
  by (auto simp: strict_prefix_def prefix_snoc)

text \<open>
  C4. The end-to-end example, for any module folder, working directory, file texts and
  transpiler, on a tidy filesystem: the folder \<open>api\<close> under \<open>import.meta.dir\<close> lists
  exactly \<open>index.ts\<close> and \<open>util.ts\<close>, both files; the transpiler accepts the text of
  \<open>index.ts\<close>; the working directory exists; \<open>dist\<close> in it is either missing or a
  folder, with files and folders below it and no special entry; and \<open>api\<close> does not lie
  at or below \<open>dist\<close>. Then \<open>addFolder("api", ["util.ts"])\<close> registers the node, and
  \<open>transform()\<close> after \<open>setOutdir("dist")\<close> is fulfilled with nothing left running.
  Afterwards the entries at or below \<open>dist\<close> are the folders \<open>dist\<close> and
  \<open>dist/api\<close> and the file \<open>dist/api/index.js\<close> with the transpiled text of
  \<open>index.ts\<close>: one file, and no \<open>util.js\<close>. The rest of the filesystem is as it was.
\<close>

theorem end_to_end_example:
  assumes tidy: "tidy D"
    and api: "lstatSync D (meta_dir env @ ''/api'') = Some Directory"
    and listing: "readdirSync D (meta_dir env @ ''/api'') = Inr entries"
    and exactly: "entries = [''index.ts'', ''util.ts''] \<or> entries = [''util.ts'', ''index.ts'']"
    and index: "readFileSync D (meta_dir env @ ''/api/index.ts'') = Inr src"
    and util: "readFileSync D (meta_dir env @ ''/api/util.ts'') = Inr other"
    and conv: "transformSync env src = Inr code"
    and wd: "lstatSync D (cwd env) = Some Directory"
    and out: "lstatSync D (cwd env @ ''/dist'') = None
              \<or> lstatSync D (cwd env @ ''/dist'') = Some Directory"
    and plain: "\<forall>e\<in>set D. strict_prefix (resolve (cwd env @ ''/dist'')) (fst e)
                  \<longrightarrow> snd e \<noteq> Special"
    and apart: "\<not> prefix (resolve (cwd env @ ''/dist'')) (resolve (meta_dir env @ ''/api''))"
  shows "addFolder env D ''api'' (Some [''util.ts'']) None constructor
           = (None, \<lparr>this_outdir = None,
                     this_folders = [Folder (Some []) ''api'' (Some [''util.ts'']) (Some [])]\<rparr>)
       \<and> (\<exists>w'. transform env
                  (setOutdir ''dist''
                     \<lparr>this_outdir = None,
                      this_folders = [Folder (Some []) ''api'' (Some [''util.ts'']) (Some [])]\<rparr>)
                  \<lparr>disk = D, console = c0\<rparr> = (Fulfilled, w')
              \<and> filter (\<lambda>e. prefix (resolve (cwd env @ ''/dist'')) (fst e)) (disk w')
                = [(resolve (cwd env @ ''/dist''), Directory),
                   (resolve (cwd env @ ''/dist/api''), Directory),
                   (resolve (cwd env @ ''/dist/api/index.js''), File code)]
              \<and> filter (\<lambda>e. \<not> prefix (resolve (cwd env @ ''/dist'')) (fst e)) (disk w')
                = filter (\<lambda>e. \<not> prefix (resolve (cwd env @ ''/dist'')) (fst e)) D
              \<and> console w' = c0 @ [(cwd env @ ''/dist/api/index.js'', length code)])"
proof
  let ?k = "resolve (cwd env)"
  let ?s = "resolve (meta_dir env)"
  let ?d = "?k @ [''dist'']"
  let ?node = "Folder (Some []) ''api'' (Some [''util.ts'']) (Some [])"
  let ?eng = "\<lparr>this_outdir = Some ''dist'', this_folders = [?node]\<rparr>"
  let ?new = "[(?k @ [''dist'', ''api''], Directory),
               (?k @ [''dist'', ''api'', ''index.js''], File code)]"
  let ?log = "c0 @ [(cwd env @ ''/dist/api/index.js'', length code)]"
  from tidy have dk: "distinct (map fst D)" by (simp add: tidy_def)
  have api': "lookup D (?s @ [''api'']) = Some Directory"
    using api by (simp add: lstatSync_def resolve_api)
  have index': "lookup D (?s @ [''api'', ''index.ts'']) = Some (File src)"
    using index by (simp add: readFileSync_Inr resolve_api_index)
  have util': "lookup D (?s @ [''api'', ''util.ts'']) = Some (File other)"
    using util by (simp add: readFileSync_Inr resolve_api_util)
  have wd': "lookup D ?k = Some Directory"
    using wd by (simp add: lstatSync_def)
  from apart have apart': "\<not> prefix ?d (?s @ [''api''])"
    by (simp add: resolve_dist resolve_api)
  from listing api' have entries:
    "entries = map (\<lambda>e. last (fst e))
                 (filter (\<lambda>e. fst e \<noteq> [] \<and> butlast (fst e) = ?s @ [''api'']) D)"
    by (simp add: readdirSync_def resolve_api)

  show "addFolder env D ''api'' (Some [''util.ts'']) None constructor
           = (None, \<lparr>this_outdir = None, this_folders = [?node]\<rparr>)"
    using api' util'
    by (simp add: addFolder_def addFolder_node_def constructor_def base_path_def checkFile_def
        lstatSync_def resolve_api resolve_api_util isDirectory_def isFile_def)

  have run: "\<exists>D1. transform env ?eng \<lparr>disk = D, console = c0\<rparr>
                  = (Fulfilled, \<lparr>disk = D1 @ ?new, console = ?log\<rparr>)
            \<and> filter (\<lambda>e. prefix ?d (fst e)) D1 = [(?d, Directory)]
            \<and> filter (\<lambda>e. \<not> prefix ?d (fst e)) D1 = filter (\<lambda>e. \<not> prefix ?d (fst e)) D"
  proof (cases "lookup D ?d")
    case None
    let ?D1 = "D @ [(?d, Directory)]"
    have fresh: "\<forall>e\<in>set D. \<not> prefix ?d (fst e)"
    proof (intro ballI notI)
      fix e assume e: "e \<in> set D" and p: "prefix ?d (fst e)"
      show False
      proof (cases "fst e = ?d")
        case True
        with e dk have "lookup D ?d = Some (snd e)"
          by (metis lookup_key prod.collapse snoc_eq_iff_butlast)
        with None show False by simp
      next
        case False
        with p have "strict_prefix ?d (fst e)" by (simp add: strict_prefix_def)
        with tidy e have "lookup D ?d = Some Directory"
          by (metis prod.collapse tidy_ancestor)
        with None show False by simp
      qed
    qed
    have no_child: "\<forall>e\<in>set D. \<not> (fst e \<noteq> [] \<and> butlast (fst e) = ?d)"
    proof (intro ballI notI)
      fix e assume e: "e \<in> set D" and "fst e \<noteq> [] \<and> butlast (fst e) = ?d"
      then have "fst e = ?d @ [last (fst e)]"
        by (metis append_butlast_last_id)
      then have "prefix ?d (fst e)"
        by (metis prefixI)
      with fresh e show False by blast
    qed
    have made: "mkdirSync D (cwd env @ ''/dist'') = Inr ?D1"
      using None wd' by (simp add: mkdirSync_def resolve_dist)
    have empty: "readdirSync ?D1 (cwd env @ ''/dist'') = Inr []"
      using None no_child
      by (simp add: readdirSync_def resolve_dist lookup_append lookup_Cons filter_empty_conv)
    have wiped: "removeOutdirFiles env ?eng ?D1 = (None, ?D1)"
      using empty by (simp add: removeOutdirFiles_def interpolate_def)
    have root: "lookup ?D1 ?d = Some Directory"
      using None by (simp add: lookup_append lookup_Cons)
    have clean: "\<forall>e\<in>set ?D1. \<not> strict_prefix ?d (fst e)"
      using fresh by (auto simp: strict_prefix_def)
    have listed: "readdirSync ?D1 (meta_dir env @ ''/api'')
        = Inr (entries @ (if ?k = ?s @ [''api''] then [''dist''] else []))"
      using api' by (simp add: readdirSync_def resolve_api lookup_append lookup_Cons entries)
    have kept: "filter (keepFile ?node) (entries @ (if ?k = ?s @ [''api''] then [''dist''] else []))
        = [''index.ts'']"
      using exactly by (auto simp: keepFile_def truthy_def endsWith_def)
    have index1: "lookup ?D1 (?s @ [''api'', ''index.ts'']) = Some (File src)"
      using index' by (simp add: lookup_append)
    have "transformFolder env ?eng ?node \<lparr>disk = ?D1, console = c0\<rparr>
        = (Fulfilled, \<lparr>disk = ?D1 @ ?new, console = ?log\<rparr>)"
      by (rule transformFolder_api [OF root clean listed kept index1 conv])
    with None made wiped
    have "transform env ?eng \<lparr>disk = D, console = c0\<rparr>
        = (Fulfilled, \<lparr>disk = ?D1 @ ?new, console = ?log\<rparr>)"
      by (simp add: transform_def interpolate_def lstatSync_def resolve_dist)
    moreover have "filter (\<lambda>e. prefix ?d (fst e)) ?D1 = [(?d, Directory)]"
      using fresh by (simp add: filter_empty_conv)
    moreover have "filter (\<lambda>e. \<not> prefix ?d (fst e)) ?D1 = filter (\<lambda>e. \<not> prefix ?d (fst e)) D"
      by simp
    ultimately show ?thesis by blast
  next
    case (Some v)
    with out have dir: "lookup D ?d = Some Directory"
      by (simp add: lstatSync_def resolve_dist)
    let ?D1 = "filter (\<lambda>e. \<not> strict_prefix ?d (fst e)) D"
    have neq: "cwd env @ ''/dist'' \<noteq> meta_dir env"
    proof
      assume "cwd env @ ''/dist'' = meta_dir env"
      then have "resolve (meta_dir env) = ?d" by (simp add: resolve_dist [symmetric])
      with apart' show False by simp
    qed
    from plain have plain': "\<forall>e\<in>set D. strict_prefix ?d (fst e) \<longrightarrow> snd e \<noteq> Special"
      by (simp add: resolve_dist)
    have wiped: "removeOutdirFiles env ?eng D = (None, ?D1)"
      using removeOutdirFiles_wipes [where env = env and this = ?eng, OF tidy] neq dir plain'
      by (simp add: interpolate_def resolve_dist)
    have same: "\<And>q. \<not> strict_prefix ?d q \<Longrightarrow> lookup ?D1 q = lookup D q"
      by (rule lookup_filter [where P = "\<lambda>q. \<not> strict_prefix ?d q"])
    have root: "lookup ?D1 ?d = Some Directory"
      using dir by (simp add: same)
    have clean: "\<forall>e\<in>set ?D1. \<not> strict_prefix ?d (fst e)"
      by simp
    from apart' have a1: "\<not> strict_prefix ?d (?s @ [''api''])"
      by (simp add: strict_prefix_def)
    have a2: "\<And>x. \<not> strict_prefix ?d (?s @ [''api'', x])"
      using strict_prefix_child [OF apart'] by simp
    have "filter (\<lambda>e. fst e \<noteq> [] \<and> butlast (fst e) = ?s @ [''api'']) ?D1
        = filter (\<lambda>e. fst e \<noteq> [] \<and> butlast (fst e) = ?s @ [''api'']) D"
    proof -
      have "\<not> strict_prefix ?d (fst e)"
        if "fst e \<noteq> [] \<and> butlast (fst e) = ?s @ [''api'']" for e :: "string list \<times> node"
      proof -
        from that have "fst e = (?s @ [''api'']) @ [last (fst e)]"
          by (metis append_butlast_last_id)
        then show ?thesis
          using strict_prefix_child [OF apart'] by metis
      qed
      then show ?thesis
        by (auto intro: filter_cong)
    qed
    with api' a1 have listed: "readdirSync ?D1 (meta_dir env @ ''/api'') = Inr entries"
      by (simp add: readdirSync_def resolve_api same entries)
    have kept: "filter (keepFile ?node) entries = [''index.ts'']"
      using exactly by (auto simp: keepFile_def truthy_def endsWith_def)
    have index1: "lookup ?D1 (?s @ [''api'', ''index.ts'']) = Some (File src)"
      using index' a2 by (simp add: same)
    have "transformFolder env ?eng ?node \<lparr>disk = ?D1, console = c0\<rparr>
        = (Fulfilled, \<lparr>disk = ?D1 @ ?new, console = ?log\<rparr>)"
      by (rule transformFolder_api [OF root clean listed kept index1 conv])
    with dir wiped
    have "transform env ?eng \<lparr>disk = D, console = c0\<rparr>
        = (Fulfilled, \<lparr>disk = ?D1 @ ?new, console = ?log\<rparr>)"
      by (simp add: transform_def interpolate_def lstatSync_def resolve_dist isDirectory_def)
    moreover have "filter (\<lambda>e. prefix ?d (fst e)) ?D1 = [(?d, Directory)]"
    proof -
      have "filter (\<lambda>e. prefix ?d (fst e)) ?D1 = filter (\<lambda>e. fst e = ?d) D"
        by (auto simp: strict_prefix_def intro: filter_cong)
      moreover from dir have "(?d, Directory) \<in> set D"
        by (simp add: lookup_Some_key)
      ultimately show ?thesis using dk by (simp add: filter_key)
    qed
    moreover have "filter (\<lambda>e. \<not> prefix ?d (fst e)) ?D1 = filter (\<lambda>e. \<not> prefix ?d (fst e)) D"
      by (auto simp: strict_prefix_def intro: filter_cong)
    ultimately show ?thesis by blast
  qed
  then obtain D1 where
    t: "transform env ?eng \<lparr>disk = D, console = c0\<rparr>
          = (Fulfilled, \<lparr>disk = D1 @ ?new, console = ?log\<rparr>)" and
    f1: "filter (\<lambda>e. prefix ?d (fst e)) D1 = [(?d, Directory)]" and
    f2: "filter (\<lambda>e. \<not> prefix ?d (fst e)) D1 = filter (\<lambda>e. \<not> prefix ?d (fst e)) D"
    by blast
  show "\<exists>w'. transform env
                  (setOutdir ''dist'' \<lparr>this_outdir = None, this_folders = [?node]\<rparr>)
                  \<lparr>disk = D, console = c0\<rparr> = (Fulfilled, w')
              \<and> filter (\<lambda>e. prefix (resolve (cwd env @ ''/dist'')) (fst e)) (disk w')
                = [(resolve (cwd env @ ''/dist''), Directory),
                   (resolve (cwd env @ ''/dist/api''), Directory),
                   (resolve (cwd env @ ''/dist/api/index.js''), File code)]
              \<and> filter (\<lambda>e. \<not> prefix (resolve (cwd env @ ''/dist'')) (fst e)) (disk w')
                = filter (\<lambda>e. \<not> prefix (resolve (cwd env @ ''/dist'')) (fst e)) D
              \<and> console w' = ?log"
    using t f1 f2
    by (simp add: setOutdir_def resolve_dist resolve_dist_api resolve_dist_api_index)
qed

theorem end_to_end_example_witness:
  "addFolder example_env stale_disk ''api'' (Some [''util.ts'']) None constructor
     = (None, \<lparr>this_outdir = None,
               this_folders = [Folder (Some []) ''api'' (Some [''util.ts'']) (Some [])]\<rparr>)
   \<and> (\<exists>w'. transform example_env
              (setOutdir ''dist''
                 \<lparr>this_outdir = None,
                  this_folders = [Folder (Some []) ''api'' (Some [''util.ts'']) (Some [])]\<rparr>)
              \<lparr>disk = stale_disk, console = []\<rparr> = (Fulfilled, w')
          \<and> filter (\<lambda>e. prefix [''work'', ''dist''] (fst e)) (disk w')
            = [([''work'', ''dist''], Directory),
               ([''work'', ''dist'', ''api''], Directory),
               ([''work'', ''dist'', ''api'', ''index.js''], File ''let a = 1;'')]
          \<and> filter (\<lambda>e. \<not> prefix [''work'', ''dist''] (fst e)) (disk w') = example_disk
          \<and> console w' = [(''/work/dist/api/index.js'', length ''let a = 1;'')])"
proof -
  have tidy: "tidy stale_disk"
    by (simp add: tidy_def stale_disk_def eval_defs)
  have api: "lstatSync stale_disk (meta_dir example_env @ ''/api'') = Some Directory"
    by (simp add: stale_disk_def eval_defs)
  have listing: "readdirSync stale_disk (meta_dir example_env @ ''/api'')
      = Inr [''index.ts'', ''util.ts'']"
    by (simp add: stale_disk_def eval_defs run_defs)
  have exactly: "[''index.ts'', ''util.ts''] = [''index.ts'', ''util.ts'']
      \<or> [''index.ts'', ''util.ts''] = [''util.ts'', ''index.ts'']"
    by simp
  have index: "readFileSync stale_disk (meta_dir example_env @ ''/api/index.ts'')
      = Inr ''let a = 1''"
    by (simp add: stale_disk_def eval_defs run_defs)
  have util: "readFileSync stale_disk (meta_dir example_env @ ''/api/util.ts'')
      = Inr ''let b = 2''"
    by (simp add: stale_disk_def eval_defs run_defs)
  have conv: "transformSync example_env ''let a = 1'' = Inr ''let a = 1;''"
    by (simp add: example_env_def)
  have wd: "lstatSync stale_disk (cwd example_env) = Some Directory"
    by (simp add: stale_disk_def eval_defs)
  have out: "lstatSync stale_disk (cwd example_env @ ''/dist'') = None
      \<or> lstatSync stale_disk (cwd example_env @ ''/dist'') = Some Directory"
    by (simp add: stale_disk_def eval_defs)
  have plain: "\<forall>e\<in>set stale_disk.
      strict_prefix (resolve (cwd example_env @ ''/dist'')) (fst e) \<longrightarrow> snd e \<noteq> Special"
    by (simp add: stale_disk_def eval_defs)
  have apart: "\<not> prefix (resolve (cwd example_env @ ''/dist''))
                 (resolve (meta_dir example_env @ ''/api''))"
    by (simp add: eval_defs)
  have rest: "filter (\<lambda>e. \<not> prefix [''work'', ''dist''] (fst e)) stale_disk = example_disk"
    by (simp add: stale_disk_def example_disk_def)
  from end_to_end_example
         [OF tidy api listing exactly index util conv wd out plain apart, of "[]"] rest
  show ?thesis
    by (simp add: resolve_def example_env_def)
qed

subsection \<open>Sub folders\<close>

text \<open>
  C8. The traversal is meant to be sequential, a node's whole subtree being done before
  the next top-level node begins. The two loops with \<open>await\<close> are; line 99 is not:
  it starts \<open>transformFolder\<close> on each child and lets the promises go. On the sample
  tree with the sub folder \<open>v1\<close>, registered by
  \<open>addFolder("api", ["util.ts"], [{name: "v1", exclude: ["b.ts"]}])\<close>, the run reaches
  line 99 with \<open>index.js\<close> written and nothing of \<open>v1\<close> done, and nothing after that
  line waits for \<open>v1\<close>: the promise \<open>transform\<close> awaits is fulfilled as soon as the
  child's traversal has been started.
\<close>

theorem transform_leaves_children_unawaited:
  "addFolder example_env nested_disk ''api'' (Some [''util.ts''])
       (Some [Folder None ''v1'' (Some [''b.ts'']) None]) constructor
     = (None, \<lparr>this_outdir = None,
               this_folders =
                 [Folder (Some []) ''api'' (Some [''util.ts''])
                    (Some [Folder (Some ''api'') ''v1'' (Some [''b.ts'']) None])]\<rparr>)
   \<and> transform example_env
       \<lparr>this_outdir = Some ''dist'',
        this_folders =
          [Folder (Some []) ''api'' (Some [''util.ts''])
             (Some [Folder (Some ''api'') ''v1'' (Some [''b.ts'']) None])]\<rparr>
       \<lparr>disk = nested_disk, console = []\<rparr>
     = (Unawaited [Folder (Some ''api'') ''v1'' (Some [''b.ts'']) None],
        \<lparr>disk = nested_disk @
                  [([''work'', ''dist''], Directory),
                   ([''work'', ''dist'', ''api''], Directory),
                   ([''work'', ''dist'', ''api'', ''index.js''], File ''let a = 1;'')],
         console = [(''/work/dist/api/index.js'', 10)]\<rparr>)"
  by (simp add: eval_defs run_defs nested_disk_def)

end
